theory Spec2Isabelle
  imports
    Complex_Main
    "HOL-Library.Sublist"
    "HOL-Library.Multiset"
    "HOL-Library.Char_ord"
    "HOL-Library.List_Lexorder"
begin

section \<open>The prediction loader (utils/data_loaders.py)\<close>

subsection \<open>JSON values and Python dictionaries\<close>

text \<open>
  What \<^verbatim>\<open>json.load\<close> returns. A JSON object becomes a Python \<^verbatim>\<open>dict\<close>, which keeps its
  items in insertion order: \<open>JDict\<close> carries that item list. Floats are modelled by the
  real numbers they denote (rounding and infinities are left out).
\<close>

datatype json =
    JNull
  | JBool bool
  | JNum real
  | JStr string
  | JList "json list"
  | JDict "(string \<times> json) list"

text \<open>\<^verbatim>\<open>d[k] = v\<close>: an existing key keeps its position and takes the new value, a new key
  goes to the end.\<close>

fun dict_set :: "(string \<times> 'v) list \<Rightarrow> string \<Rightarrow> 'v \<Rightarrow> (string \<times> 'v) list" where
  "dict_set [] k v = [(k, v)]"
| "dict_set ((k', v') # d) k v =
     (if k' = k then (k', v) # d else (k', v') # dict_set d k v)"

text \<open>\<^verbatim>\<open>{**d, **e}\<close>: the items of \<open>e\<close> are stored into \<open>d\<close> one after the other.\<close>

definition dict_update :: "(string \<times> 'v) list \<Rightarrow> (string \<times> 'v) list \<Rightarrow> (string \<times> 'v) list" where
  "dict_update d e = foldl (\<lambda>acc (k, v). dict_set acc k v) d e"

text \<open>\<^verbatim>\<open>{"Ticker": tk, **e}\<close> (lines 24 and 26).\<close>

definition with_ticker :: "string \<Rightarrow> (string \<times> json) list \<Rightarrow> (string \<times> json) list" where
  "with_ticker tk e = dict_update [(''Ticker'', JStr tk)] e"

subsection \<open>Flattening a ticker mapping (lines 18 to 27)\<close>

text \<open>The records one item \<open>tk: entries\<close> of the root mapping contributes.\<close>

fun element_records :: "string \<Rightarrow> json \<Rightarrow> (string \<times> json) list list" where
  "element_records tk (JDict e) = [with_ticker tk e]"
| "element_records tk _ = []"

fun entry_records :: "string \<Rightarrow> json \<Rightarrow> (string \<times> json) list list" where
  "entry_records tk (JList es) = concat (map (element_records tk) es)"
| "entry_records tk (JDict entries) = [with_ticker tk entries]"
| "entry_records tk _ = []"

definition dict_records :: "(string \<times> json) list \<Rightarrow> (string \<times> json) list list" where
  "dict_records items = concat (map (\<lambda>(tk, entries). entry_records tk entries) items)"

definition normalize_root :: "json \<Rightarrow> json" where
  "normalize_root raw =
     (case raw of JDict items \<Rightarrow> JList (map JDict (dict_records items)) | _ \<Rightarrow> raw)"

subsection \<open>The table\<close>

text \<open>
  A cell of a data frame: \<open>NA\<close> is the missing marker (\<^verbatim>\<open>NaN\<close>, \<^verbatim>\<open>NaT\<close>, \<^verbatim>\<open>pd.NA\<close>), \<open>Py v\<close> a
  value as it came out of the JSON document, \<open>Float x\<close> a number that \<^verbatim>\<open>to_numeric\<close> produced,
  \<open>Stamp t\<close> a timestamp that \<^verbatim>\<open>to_datetime\<close> produced (\<open>t\<close> in milliseconds since the epoch).
  A frame is its column labels and its rows, every row holding one cell per column.
\<close>

datatype cell = NA | Py json | Float real | Stamp real

record frame =
  columns :: "string list"
  rows :: "cell list list"

datatype error =
    JSONDecodeError    \<comment> \<open>the file is not a JSON document\<close>
  | ValueError         \<comment> \<open>raised by pandas or by \<^verbatim>\<open>float\<close>\<close>
  | PositionalFrame    \<comment> \<open>a list root with an element that is no object: pandas then
                          builds positional columns, which this model does not follow\<close>

datatype content = Unparsable | Parsed json

type_synonym files = "string \<rightharpoonup> content"

fun as_record :: "json \<Rightarrow> (string \<times> json) list option" where
  "as_record (JDict d) = Some d"
| "as_record _ = None"

fun as_records :: "json list \<Rightarrow> (string \<times> json) list list option" where
  "as_records [] = Some []"
| "as_records (x # xs) =
     (case as_record x of
        None \<Rightarrow> None
      | Some d \<Rightarrow> (case as_records xs of None \<Rightarrow> None | Some ds \<Rightarrow> Some (d # ds)))"

text \<open>The column labels of a list of records: the keys in the order of their first
  appearance.\<close>

definition add_label :: "string list \<Rightarrow> string \<Rightarrow> string list" where
  "add_label seen k = (if k \<in> set seen then seen else seen @ [k])"

definition record_columns :: "(string \<times> json) list list \<Rightarrow> string list" where
  "record_columns rs = foldl add_label [] (concat (map (map fst) rs))"

definition record_cell :: "(string \<times> json) list \<Rightarrow> string \<Rightarrow> cell" where
  "record_cell r c = (case map_of r c of None \<Rightarrow> NA | Some v \<Rightarrow> Py v)"

definition frame_of_records :: "(string \<times> json) list list \<Rightarrow> frame" where
  "frame_of_records rs =
     (let cols = record_columns rs
      in \<lparr>columns = cols, rows = map (\<lambda>r. map (record_cell r) cols) rs\<rparr>)"

text \<open>\<^verbatim>\<open>pd.DataFrame(raw)\<close> (line 29): a list of records gives one row per record,
  \<^verbatim>\<open>None\<close> gives the empty frame, any other scalar is refused by pandas.\<close>

definition DataFrame :: "json \<Rightarrow> error + frame" where
  "DataFrame raw =
     (case raw of
        JList xs \<Rightarrow>
          (case as_records xs of
             Some rs \<Rightarrow> Inr (frame_of_records rs)
           | None \<Rightarrow> Inl PositionalFrame)
      | JNull \<Rightarrow> Inr \<lparr>columns = [], rows = []\<rparr>
      | _ \<Rightarrow> Inl ValueError)"

definition required_columns :: "string list" where
  "required_columns = [''Ticker'', ''Date'', ''ProbUp'', ''Signal'']"

text \<open>Lines 30 to 32: \<^verbatim>\<open>if col not in df.columns: df[col] = pd.NA\<close>.\<close>

definition ensure_column :: "frame \<Rightarrow> string \<Rightarrow> frame" where
  "ensure_column df col =
     (if col \<in> set (columns df) then df
      else \<lparr>columns = columns df @ [col], rows = map (\<lambda>r. r @ [NA]) (rows df)\<rparr>)"

text \<open>\<^verbatim>\<open>df[col] = f(df[col])\<close> for a conversion \<open>f\<close> that works cell by cell.\<close>

definition map_column :: "string \<Rightarrow> (cell \<Rightarrow> cell) \<Rightarrow> frame \<Rightarrow> frame" where
  "map_column col f df =
     \<lparr>columns = columns df,
      rows = map (\<lambda>r. map (\<lambda>(c, x). if c = col then f x else x) (zip (columns df) r)) (rows df)\<rparr>"

text \<open>
  \<^verbatim>\<open>pd.to_datetime(_, unit="ms", errors="coerce")\<close> and \<^verbatim>\<open>pd.to_numeric(_, errors="coerce")\<close>
  are pandas functions: which JSON values they convert is their business, so the
  conversion of one value is a parameter (\<open>None\<close>: not convertible). With
  \<^verbatim>\<open>errors="coerce"\<close> a value that does not convert becomes the missing marker.
\<close>

definition datetime_cell :: "(json \<Rightarrow> real option) \<Rightarrow> cell \<Rightarrow> cell" where
  "datetime_cell to_datetime c =
     (case c of
        Py v \<Rightarrow> (case to_datetime v of None \<Rightarrow> NA | Some t \<Rightarrow> Stamp t)
      | _ \<Rightarrow> c)"

definition numeric_cell :: "(json \<Rightarrow> real option) \<Rightarrow> cell \<Rightarrow> cell" where
  "numeric_cell to_numeric c =
     (case c of
        Py v \<Rightarrow> (case to_numeric v of None \<Rightarrow> NA | Some x \<Rightarrow> Float x)
      | _ \<Rightarrow> c)"

definition load_predictions ::
  "(json \<Rightarrow> real option) \<Rightarrow> (json \<Rightarrow> real option) \<Rightarrow> files \<Rightarrow> string \<Rightarrow> error + frame" where
  "load_predictions to_datetime to_numeric fs json_path =
     (case fs json_path of
        None \<Rightarrow> Inr \<lparr>columns = required_columns, rows = []\<rparr>
      | Some Unparsable \<Rightarrow> Inl JSONDecodeError
      | Some (Parsed raw) \<Rightarrow>
          (case DataFrame (normalize_root raw) of
             Inl e \<Rightarrow> Inl e
           | Inr df \<Rightarrow>
               Inr (map_column ''ProbUp'' (numeric_cell to_numeric)
                     (map_column ''Date'' (datetime_cell to_datetime)
                       (foldl ensure_column df required_columns)))))"

text \<open>A conversion to run the loader with: JSON numbers convert, nothing else does.\<close>

fun number_of :: "json \<Rightarrow> real option" where
  "number_of (JNum x) = Some x"
| "number_of _ = None"

text \<open>The flat list that the specification calls equivalent to a ticker mapping whose
  values are lists of objects: every object with its ticker put in front as the field
  \<^verbatim>\<open>Ticker\<close>.\<close>

fun flat_element :: "string \<Rightarrow> json \<Rightarrow> json" where
  "flat_element tk (JDict e) = JDict ((''Ticker'', JStr tk) # e)"
| "flat_element tk v = v"

fun flat_entries :: "string \<Rightarrow> json \<Rightarrow> json list" where
  "flat_entries tk (JList es) = map (flat_element tk) es"
| "flat_entries tk _ = []"

definition flat_list :: "(string \<times> json) list \<Rightarrow> json" where
  "flat_list items = JList (concat (map (\<lambda>(tk, entries). flat_entries tk entries) items))"

text \<open>A ticker mapping of the first shape of the specification: every value is a list of
  objects, none of which has a field \<^verbatim>\<open>Ticker\<close> of its own, the keys of an object being
  pairwise distinct (as in every parsed document).\<close>

fun plain_element :: "json \<Rightarrow> bool" where
  "plain_element (JDict e) = (distinct (map fst e) \<and> ''Ticker'' \<notin> set (map fst e))"
| "plain_element _ = False"

fun plain_entries :: "json \<Rightarrow> bool" where
  "plain_entries (JList es) = list_all plain_element es"
| "plain_entries _ = False"

definition ticker_lists :: "(string \<times> json) list \<Rightarrow> bool" where
  "ticker_lists items = list_all (\<lambda>(tk, entries). plain_entries entries) items"

section \<open>The filter, sort and limit pipeline (tabs/probability_tab.py, tabs/share_tab.py)\<close>

subsection \<open>Prediction rows and the filter settings\<close>

text \<open>
  The pipeline runs on the table the loader returned, read row by row. A cell of the
  object columns Ticker and Signal is a string, \<^verbatim>\<open>None\<close> (JSON \<^verbatim>\<open>null\<close>) or \<^verbatim>\<open>NaN\<close> (the
  field was absent); the loader has made ProbUp a float column and Date a timestamp
  column, where \<open>None\<close> stands for \<^verbatim>\<open>NaN\<close> and \<^verbatim>\<open>NaT\<close>: the value was \<^verbatim>\<open>null\<close>, absent or
  not convertible. Tickers and signals that are neither strings nor missing are outside
  this model.
\<close>

datatype pyobj = NaN | PyNone | Str string

record prediction =
  Ticker :: pyobj
  Date :: "real option"
  ProbUp :: "real option"
  Signal :: pyobj

text \<open>The arguments of \<^verbatim>\<open>render_probability_tab\<close> and \<^verbatim>\<open>render_share_tab\<close>.
  \<open>limit_option\<close> is \<open>None\<close> for a value that is no \<^verbatim>\<open>int\<close> (the sidebar's \<^verbatim>\<open>"All"\<close>).\<close>

record filter_spec =
  include_up :: bool
  include_down :: bool
  prob_range :: "real list"
  limit_option :: "int option"
  sort_option :: string

subsection \<open>The signal filter (probability_tab.py lines 30 to 38)\<close>

text \<open>\<^verbatim>\<open>str.upper\<close> on the ASCII letters; other characters are bytes of the UTF-8 encoding
  here and stay as they are, which no comparison with \<^verbatim>\<open>UP\<close> or \<^verbatim>\<open>DOWN\<close> can tell.\<close>

definition upper_char :: "char \<Rightarrow> char" where
  "upper_char c =
     (case map_of (zip ''abcdefghijklmnopqrstuvwxyz'' ''ABCDEFGHIJKLMNOPQRSTUVWXYZ'') c of
        None \<Rightarrow> c
      | Some u \<Rightarrow> u)"

definition upper :: "string \<Rightarrow> string" where
  "upper s = map upper_char s"

fun astype_str :: "pyobj \<Rightarrow> string" where
  "astype_str NaN = ''nan''"
| "astype_str PyNone = ''None''"
| "astype_str (Str s) = s"

definition Signal_u :: "prediction \<Rightarrow> string" where
  "Signal_u r = upper (astype_str (Signal r))"

definition signals :: "filter_spec \<Rightarrow> string list" where
  "signals spec =
     (let chosen = (if include_up spec then [''UP''] else [])
                 @ (if include_down spec then [''DOWN''] else [])
      in if chosen = [] then [''UP'', ''DOWN''] else chosen)"

definition signal_filter :: "filter_spec \<Rightarrow> prediction list \<Rightarrow> prediction list" where
  "signal_filter spec df = filter (\<lambda>r. Signal_u r \<in> set (signals spec)) df"

subsection \<open>The probability range (lines 40 to 42)\<close>

text \<open>\<^verbatim>\<open>pd.to_numeric(work_df["ProbUp"], errors="coerce").fillna(-1)\<close>: on the float column
  the conversion changes nothing, and \<^verbatim>\<open>fillna\<close> puts \<open>-1\<close> where the value is missing.\<close>

definition fillna :: "real \<Rightarrow> real option \<Rightarrow> real" where
  "fillna d x = (case x of None \<Rightarrow> d | Some p \<Rightarrow> p)"

text \<open>\<^verbatim>\<open>prob_range if isinstance(prob_range, (list, tuple)) and len(prob_range) == 2
  else (0.0, 1.0)\<close>.\<close>

fun bounds :: "real list \<Rightarrow> real \<times> real" where
  "bounds [pmin, pmax] = (pmin, pmax)"
| "bounds _ = (0, 1)"

definition in_range :: "filter_spec \<Rightarrow> prediction \<Rightarrow> bool" where
  "in_range spec r =
     (let p = fillna (-1) (ProbUp r); (pmin, pmax) = bounds (prob_range spec)
      in p \<ge> pmin \<and> p \<le> pmax)"

definition range_filter :: "filter_spec \<Rightarrow> prediction list \<Rightarrow> prediction list" where
  "range_filter spec df = filter (in_range spec) df"

subsection \<open>Sorting (lines 43 to 48)\<close>

text \<open>
  \<^verbatim>\<open>sort_values\<close> on one column puts the rows whose key is missing last, in the order they
  had, and arranges the others with numpy's \<^verbatim>\<open>argsort\<close>. The code passes no \<^verbatim>\<open>kind\<close>, so
  the algorithm is the default \<^verbatim>\<open>quicksort\<close>, of which pandas and numpy promise the
  order of the keys and nothing about rows with equal keys. That algorithm is not part
  of this repository: it is the parameter \<open>qs\<close>, a function that arranges a list along a
  comparison, and \<open>sorts qs\<close> is what its documentation promises.
\<close>

type_synonym 'a sorter = "('a \<Rightarrow> 'a \<Rightarrow> bool) \<Rightarrow> 'a list \<Rightarrow> 'a list"

definition total_preorder :: "('a \<Rightarrow> 'a \<Rightarrow> bool) \<Rightarrow> bool" where
  "total_preorder le \<longleftrightarrow> (\<forall>a b. le a b \<or> le b a) \<and> (\<forall>a b c. le a b \<longrightarrow> le b c \<longrightarrow> le a c)"

definition sorts :: "'a sorter \<Rightarrow> bool" where
  "sorts qs \<longleftrightarrow>
     (\<forall>le xs. total_preorder le \<longrightarrow> mset (qs le xs) = mset xs \<and> sorted_wrt le (qs le xs))"

text \<open>A missing key counts as larger than every key, in both directions of the sort.\<close>

fun missing_last :: "('k \<Rightarrow> 'k \<Rightarrow> bool) \<Rightarrow> 'k option \<Rightarrow> 'k option \<Rightarrow> bool" where
  "missing_last le (Some x) (Some y) = le x y"
| "missing_last le _ None = True"
| "missing_last le None (Some y) = False"

definition sort_values ::
  "'a sorter \<Rightarrow> ('a \<Rightarrow> 'k option) \<Rightarrow> ('k \<Rightarrow> 'k \<Rightarrow> bool) \<Rightarrow> 'a list \<Rightarrow> 'a list" where
  "sort_values qs key le df =
     qs (\<lambda>a b. missing_last le (key a) (key b)) (filter (\<lambda>r. key r \<noteq> None) df)
     @ filter (\<lambda>r. key r = None) df"

text \<open>The key of the column Ticker: \<^verbatim>\<open>isna\<close> holds of \<^verbatim>\<open>NaN\<close> and of \<^verbatim>\<open>None\<close>; strings
  compare as Python compares them, character by character.\<close>

fun ticker_key :: "prediction \<Rightarrow> string option" where
  "ticker_key r = (case Ticker r of Str s \<Rightarrow> Some s | _ \<Rightarrow> None)"

definition sort_rows :: "prediction sorter \<Rightarrow> filter_spec \<Rightarrow> prediction list \<Rightarrow> prediction list" where
  "sort_rows qs spec work_df =
     (if sort_option spec = ''ProbUp descending'' then sort_values qs ProbUp (\<ge>) work_df
      else if sort_option spec = ''ProbUp ascending'' then sort_values qs ProbUp (\<le>) work_df
      else sort_values qs ticker_key (\<le>) work_df)"

subsection \<open>The limit (lines 49 and 50) and the whole pipeline\<close>

text \<open>\<^verbatim>\<open>df.head(n)\<close>: the first \<open>n\<close> rows, and for a negative \<open>n\<close> all rows but the last
  \<open>-n\<close>.\<close>

definition head :: "int \<Rightarrow> 'a list \<Rightarrow> 'a list" where
  "head n df = (if n < 0 then take (length df - nat (- n)) df else take (nat n) df)"

definition limit_rows :: "filter_spec \<Rightarrow> prediction list \<Rightarrow> prediction list" where
  "limit_rows spec df = (case limit_option spec of None \<Rightarrow> df | Some n \<Rightarrow> head n df)"

definition pipeline :: "prediction sorter \<Rightarrow> filter_spec \<Rightarrow> prediction list \<Rightarrow> prediction list" where
  "pipeline qs spec df = limit_rows spec (sort_rows qs spec (range_filter spec (signal_filter spec df)))"

subsection \<open>Two sorting functions\<close>

text \<open>Insertion sort, which keeps rows with equal keys in the order they had, and the same
  on the reversed list, which sorts as well and turns that order round.\<close>

fun insert_by :: "('a \<Rightarrow> 'a \<Rightarrow> bool) \<Rightarrow> 'a \<Rightarrow> 'a list \<Rightarrow> 'a list" where
  "insert_by le x [] = [x]"
| "insert_by le x (y # ys) = (if le x y then x # y # ys else y # insert_by le x ys)"

fun isort :: "'a sorter" where
  "isort le [] = []"
| "isort le (x # xs) = insert_by le x (isort le xs)"

definition rsort :: "'a sorter" where
  "rsort le xs = isort le (rev xs)"


subsection \<open>The latest row of every ticker (share_tab.py lines 131 to 135)\<close>

text \<open>
  \<^verbatim>\<open>sort_values(["Ticker", "Date"])\<close> sorts on two columns, which pandas does with a
  stable lexicographic sort whatever \<^verbatim>\<open>kind\<close> is, missing values last in each column;
  \<^verbatim>\<open>dropna(subset=["Ticker"])\<close> drops the rows without ticker;
  \<^verbatim>\<open>groupby("Ticker").tail(1)\<close> keeps of every ticker the last row.
\<close>

definition by_ticker_date :: "prediction \<Rightarrow> prediction \<Rightarrow> bool" where
  "by_ticker_date a b \<longleftrightarrow>
     (if ticker_key a = ticker_key b then missing_last (\<le>) (Date a) (Date b)
      else missing_last (\<le>) (ticker_key a) (ticker_key b))"

fun group_tail :: "prediction list \<Rightarrow> prediction list" where
  "group_tail [] = []"
| "group_tail (r # rs) =
     (if list_ex (\<lambda>r'. Ticker r' = Ticker r) rs then group_tail rs else r # group_tail rs)"

definition latest_rows :: "prediction list \<Rightarrow> prediction list" where
  "latest_rows pred_df =
     group_tail (filter (\<lambda>r. ticker_key r \<noteq> None) (isort by_ticker_date pred_df))"

text \<open>The rows the share overview shows: the reduction first, then the pipeline.\<close>

definition share_rows :: "prediction sorter \<Rightarrow> filter_spec \<Rightarrow> prediction list \<Rightarrow> prediction list" where
  "share_rows qs spec pred_df = pipeline qs spec (latest_rows pred_df)"

subsection \<open>A row and the sidebar's settings, to run the pipeline on\<close>

definition row :: "string \<Rightarrow> real option \<Rightarrow> real option \<Rightarrow> string \<Rightarrow> prediction" where
  "row tk d p s = \<lparr>Ticker = Str tk, Date = d, ProbUp = p, Signal = Str s\<rparr>"

text \<open>What app.py passes before the user touches the sidebar.\<close>

definition sidebar :: filter_spec where
  "sidebar = \<lparr>include_up = True, include_down = True, prob_range = [0, 1],
     limit_option = Some 10, sort_option = ''ProbUp descending''\<rparr>"

section \<open>The classification report (tabs/classification_tab.py)\<close>

subsection \<open>Regular expressions\<close>

text \<open>
  The patterns of this file are sequences of single characters and character classes,
  each taken once, optionally (\<^verbatim>\<open>?\<close>), any number of times (\<^verbatim>\<open>*\<close>) or at least once
  (\<^verbatim>\<open>+\<close>). Strings are byte strings here, so \<^verbatim>\<open>\s\<close> and \<^verbatim>\<open>\d\<close> are their ASCII parts: the
  white space and digits outside ASCII that Python also accepts are left out.
\<close>

datatype atom = Lit char | Space | Digit

datatype item = One atom | Opt atom | Star atom | Plus atom

definition is_space :: "char \<Rightarrow> bool" where
  "is_space c \<longleftrightarrow> c \<in> set [CHR 0x09, CHR 0x0A, CHR 0x0B, CHR 0x0C, CHR 0x0D,
     CHR 0x1C, CHR 0x1D, CHR 0x1E, CHR 0x1F, CHR '' '']"

definition is_digit :: "char \<Rightarrow> bool" where
  "is_digit c \<longleftrightarrow> c \<in> set ''0123456789''"

fun atom_ok :: "atom \<Rightarrow> char \<Rightarrow> bool" where
  "atom_ok (Lit d) c = (c = d)"
| "atom_ok Space c = is_space c"
| "atom_ok Digit c = is_digit c"

text \<open>\<open>matches r s\<close>: what is left of \<open>s\<close> after a match of \<open>r\<close> at its start, one entry for
  every way to match, in the order in which Python's backtracking tries them (the
  repetitions are greedy: the longer match comes first).\<close>

fun matches :: "item list \<Rightarrow> string \<Rightarrow> string list" where
  "matches [] s = [s]"
| "matches (One a # r) [] = []"
| "matches (One a # r) (c # s) = (if atom_ok a c then matches r s else [])"
| "matches (Opt a # r) [] = matches r []"
| "matches (Opt a # r) (c # s) =
     (if atom_ok a c then matches r s else []) @ matches r (c # s)"
| "matches (Star a # r) [] = matches r []"
| "matches (Star a # r) (c # s) =
     (if atom_ok a c then matches (Star a # r) s else []) @ matches r (c # s)"
| "matches (Plus a # r) [] = []"
| "matches (Plus a # r) (c # s) = (if atom_ok a c then matches (Star a # r) s else [])"

text \<open>A pattern with one group is its part before the group, the group, and its part
  after. \<open>match_here\<close> is the text of the group in the first match at the start of \<open>s\<close>,
  and \<open>search\<close> is \<^verbatim>\<open>re.search(pattern, s)\<close> followed by \<^verbatim>\<open>group(1)\<close>: the leftmost
  match.\<close>

definition match_here :: "item list \<Rightarrow> item list \<Rightarrow> item list \<Rightarrow> string \<Rightarrow> string option" where
  "match_here pre grp post s =
     (case [take (length s1 - length s2) s1.
              s1 \<leftarrow> matches pre s, s2 \<leftarrow> matches grp s1, s3 \<leftarrow> matches post s2] of
        [] \<Rightarrow> None
      | g # _ \<Rightarrow> Some g)"

fun search :: "item list \<Rightarrow> item list \<Rightarrow> item list \<Rightarrow> string \<Rightarrow> string option" where
  "search pre grp post [] = match_here pre grp post []"
| "search pre grp post (c # s) =
     (case match_here pre grp post (c # s) of
        Some g \<Rightarrow> Some g
      | None \<Rightarrow> search pre grp post s)"

definition lit :: "string \<Rightarrow> item list" where
  "lit s = map (\<lambda>c. One (Lit c)) s"

subsection \<open>The scalar metrics (lines 72 to 83)\<close>

text \<open>The group \<^verbatim>\<open>([0-9]*\.?[0-9]+)\<close> that ends each of the four patterns.\<close>

definition number :: "item list" where
  "number = [Star Digit, Opt (Lit CHR ''.''), Plus Digit]"

text \<open>\<^verbatim>\<open>metric_patterns\<close>, every pattern without its group:
  \<^verbatim>\<open>ROC-AUC:\s*\<close>, \<^verbatim>\<open>Accuracy\s*:\s*\<close>, \<^verbatim>\<open>Precision:\s*\<close> and \<^verbatim>\<open>Recall\s*: *\<close>.\<close>

definition metric_patterns :: "(string \<times> item list) list" where
  "metric_patterns =
     [(''ROC-AUC'', lit ''ROC-AUC:'' @ [Star Space]),
      (''Accuracy'', lit ''Accuracy'' @ [Star Space] @ lit '':'' @ [Star Space]),
      (''Precision'', lit ''Precision:'' @ [Star Space]),
      (''Recall'', lit ''Recall'' @ [Star Space] @ lit '':'' @ [Star (Lit CHR '' '')])]"

text \<open>\<^verbatim>\<open>float(s)\<close> for a decimal numeral: digits, with a point among them or not, read
  as the number they denote, without the rounding to a double. \<open>None\<close> says that \<open>s\<close> is no
  such numeral; the extraction below treats it as the \<^verbatim>\<open>ValueError\<close> that \<^verbatim>\<open>float\<close> raises
  on a string it cannot read.\<close>

definition digit_value :: "char \<Rightarrow> int" where
  "digit_value c = of_char c - 48"

definition digits_value :: "string \<Rightarrow> int" where
  "digits_value s = foldl (\<lambda>n c. 10 * n + digit_value c) 0 s"

definition float_of :: "string \<Rightarrow> real option" where
  "float_of s =
     (let whole = takeWhile is_digit s; rest = dropWhile is_digit s
      in case rest of
           [] \<Rightarrow> if whole = [] then None else Some (of_int (digits_value whole))
         | c # part \<Rightarrow>
             if c = CHR ''.'' \<and> list_all is_digit part \<and> (whole \<noteq> [] \<or> part \<noteq> [])
             then Some (of_int (digits_value whole) + of_int (digits_value part) / 10 ^ length part)
             else None)"

text \<open>The loop of lines 79 to 83 over the patterns in their order: the dictionary
  \<^verbatim>\<open>extracted_metrics\<close> as the list of its items.\<close>

fun extract_from :: "(string \<times> item list) list \<Rightarrow> string \<Rightarrow> error + (string \<times> real) list" where
  "extract_from [] raw_report = Inr []"
| "extract_from ((label, pattern) # ps) raw_report =
     (case search pattern number [] raw_report of
        None \<Rightarrow> extract_from ps raw_report
      | Some g \<Rightarrow>
          (case float_of g of
             None \<Rightarrow> Inl ValueError
           | Some v \<Rightarrow>
               (case extract_from ps raw_report of
                  Inl e \<Rightarrow> Inl e
                | Inr m \<Rightarrow> Inr ((label, v) # m))))"

definition extracted_metrics :: "string \<Rightarrow> error + (string \<times> real) list" where
  "extracted_metrics raw_report = extract_from metric_patterns raw_report"

subsection \<open>The report file (lines 19 to 36)\<close>

text \<open>The comprehension of line 20 over the names \<^verbatim>\<open>os.listdir\<close> returned.\<close>

definition report_files :: "string list \<Rightarrow> string list" where
  "report_files listing =
     filter (\<lambda>f. prefix ''Klassifikationsreport_'' f \<and> suffix ''.txt'' f) listing"

text \<open>\<^verbatim>\<open>re.search(r"Klassifikationsreport_(\d{8}_\d{6})\.txt", fname)\<close>, and the empty string
  when nothing in the name matches.\<close>

definition extract_timestamp :: "string \<Rightarrow> string" where
  "extract_timestamp fname =
     (case search (lit ''Klassifikationsreport_'')
             (replicate 8 (One Digit) @ [One (Lit CHR ''_'')] @ replicate 6 (One Digit))
             (lit ''.txt'') fname of
        None \<Rightarrow> []
      | Some g \<Rightarrow> g)"

text \<open>
  The key of line 35, \<^verbatim>\<open>pd.to_datetime(extract_timestamp(f), format="%Y%m%d_%H%M%S")\<close>.
  pandas turns the empty string into \<^verbatim>\<open>NaT\<close>, here \<open>None\<close>, and reads any other string
  against the format: that reading is the parameter \<open>strptime\<close>, which gives \<open>None\<close> for a
  string that is no date of this format, where pandas raises \<^verbatim>\<open>ValueError\<close>.
\<close>

definition file_key :: "(string \<Rightarrow> 't option) \<Rightarrow> string \<Rightarrow> error + 't option" where
  "file_key strptime f =
     (let ts = extract_timestamp f
      in if ts = [] then Inr None
         else case strptime ts of
                None \<Rightarrow> Inl ValueError
              | Some t \<Rightarrow> Inr (Some t))"

text \<open>\<^verbatim>\<open>sorted\<close> computes the keys of all files first, in their order.\<close>

fun with_keys :: "(string \<Rightarrow> 't option) \<Rightarrow> string list \<Rightarrow> error + (string \<times> 't option) list" where
  "with_keys strptime [] = Inr []"
| "with_keys strptime (f # fs) =
     (case file_key strptime f of
        Inl e \<Rightarrow> Inl e
      | Inr k \<Rightarrow>
          (case with_keys strptime fs of
             Inl e \<Rightarrow> Inl e
           | Inr ks \<Rightarrow> Inr ((f, k) # ks)))"

text \<open>
  How the tab goes on: with a warning and nothing else when the folder is missing or holds
  no report file, and with the last file of the sorted list otherwise. \<^verbatim>\<open>sorted\<close> is stable
  and orders timestamps as time does. \<^verbatim>\<open>NaT\<close> is neither less nor greater than any key, so
  with a \<^verbatim>\<open>NaT\<close> among several keys the result depends on the comparisons Python's sort
  happens to make; this model does not follow them and answers \<open>Unordered\<close>. In the other
  cases no key is missing or no comparison is made, and the place \<open>missing_last\<close> gives
  to a missing key plays no part.
\<close>

datatype selection = NoFolder | NoFiles | Unordered | Latest string

definition latest_file ::
  "(string \<Rightarrow> 't::linorder option) \<Rightarrow> string list option \<Rightarrow> error + selection" where
  "latest_file strptime listing =
     (case listing of
        None \<Rightarrow> Inr NoFolder
      | Some names \<Rightarrow>
          if report_files names = [] then Inr NoFiles
          else case with_keys strptime (report_files names) of
                 Inl e \<Rightarrow> Inl e
               | Inr ks \<Rightarrow>
                   if length ks = 1 \<or> list_all (\<lambda>(f, k). k \<noteq> None) ks
                   then Inr (Latest (fst (last
                          (isort (\<lambda>a b. missing_last (\<le>) (snd a) (snd b)) ks))))
                   else Inr Unordered)"

text \<open>A reading of timestamps to run the selection with: the digits as one number, which
  orders the strings of eight digits, \<^verbatim>\<open>_\<close> and six digits as time orders them.\<close>

definition stamp_number :: "string \<Rightarrow> int option" where
  "stamp_number s = Some (digits_value (filter is_digit s))"

section \<open>Properties of the loader\<close>

lemma dict_set_fresh: "k \<notin> set (map fst d) \<Longrightarrow> dict_set d k v = d @ [(k, v)]"
  by (induction d) auto

lemma dict_update_fresh:
  "distinct (map fst e) \<Longrightarrow> set (map fst d) \<inter> set (map fst e) = {} \<Longrightarrow> dict_update d e = d @ e"
proof (induction e arbitrary: d)
  case Nil
  then show ?case by (simp add: dict_update_def)
next
  case (Cons a e)
  obtain k v where a: "a = (k, v)" by (cases a)
  from Cons.prems a have fresh: "k \<notin> set (map fst d)" by auto
  have step: "dict_update d (a # e) = dict_update (dict_set d k v) e"
    by (simp add: dict_update_def a)
  have "dict_update (d @ [(k, v)]) e = (d @ [(k, v)]) @ e"
    using Cons.prems a by (intro Cons.IH) auto
  then show ?case using step fresh a by (simp add: dict_set_fresh)
qed

lemma with_ticker_plain:
  "distinct (map fst e) \<Longrightarrow> ''Ticker'' \<notin> set (map fst e) \<Longrightarrow>
   with_ticker tk e = (''Ticker'', JStr tk) # e"
  unfolding with_ticker_def by (subst dict_update_fresh) auto

lemma map_of_dict_set: "map_of (dict_set d k v) = (map_of d)(k \<mapsto> v)"
  by (induction d) (auto simp: fun_eq_iff)

lemma map_of_dict_update: "map_of (dict_update d e) = map_of d ++ map_of (rev e)"
proof (induction e arbitrary: d)
  case Nil
  then show ?case by (simp add: dict_update_def)
next
  case (Cons a e)
  obtain k v where a: "a = (k, v)" by (cases a)
  have "dict_update d (a # e) = dict_update (dict_set d k v) e"
    by (simp add: dict_update_def a)
  then have "map_of (dict_update d (a # e)) = (map_of d)(k \<mapsto> v) ++ map_of (rev e)"
    by (simp only: Cons.IH map_of_dict_set)
  also have "\<dots> = map_of d ++ map_of (rev (a # e))"
    by (auto simp: a fun_eq_iff map_add_def split: option.splits)
  finally show ?case .
qed

lemma entry_records_list:
  "concat (map (element_records tk) es) = map (with_ticker tk) (List.map_filter as_record es)"
proof (induction es)
  case Nil
  then show ?case by (simp add: List.map_filter_simps)
next
  case (Cons x es)
  then show ?case by (cases x) (simp_all add: List.map_filter_simps)
qed

text \<open>
  Claim C10. Under a ticker key of a root mapping, an entry (the single object, or an
  object of the list) that has a field \<^verbatim>\<open>Ticker\<close> of its own keeps that value: the
  emitted record's \<^verbatim>\<open>Ticker\<close> is the entry's, not the key. A value under a key that is
  neither an object nor a list gives no record, and so does an element of a list that
  is not an object.
\<close>

theorem own_ticker_overrides:
  "map_of (with_ticker tk e) ''Ticker'' =
     Some (case map_of (rev e) ''Ticker'' of None \<Rightarrow> JStr tk | Some v \<Rightarrow> v)
   \<and> entry_records tk (JDict e) = [with_ticker tk e]
   \<and> entry_records tk (JList es) = map (with_ticker tk) (List.map_filter as_record es)
   \<and> entry_records tk JNull = [] \<and> entry_records tk (JBool b) = []
   \<and> entry_records tk (JNum x) = [] \<and> entry_records tk (JStr s) = []"
  by (simp add: with_ticker_def map_of_dict_update map_add_def entry_records_list
      split: option.splits)

text \<open>
  Claim C5. For a path at which there is no file, the loader returns (it does not
  raise) the table without rows whose columns are Ticker, Date, ProbUp, Signal.
\<close>

theorem missing_file_empty_table:
  "fs json_path = None \<Longrightarrow>
   load_predictions to_datetime to_numeric fs json_path =
     Inr \<lparr>columns = [''Ticker'', ''Date'', ''ProbUp'', ''Signal''], rows = []\<rparr>"
  by (simp add: load_predictions_def required_columns_def)

theorem missing_file_empty_table_witness:
  "load_predictions number_of number_of Map.empty ''results_stock_prediction.json'' =
     Inr \<lparr>columns = [''Ticker'', ''Date'', ''ProbUp'', ''Signal''], rows = []\<rparr>"
  using missing_file_empty_table [of Map.empty "''results_stock_prediction.json''" number_of number_of]
  by simp

lemma element_records_plain:
  "plain_element x \<Longrightarrow> map JDict (element_records tk x) = [flat_element tk x]"
  by (cases x) (simp_all add: with_ticker_plain)

lemma entry_records_plain:
  "plain_entries v \<Longrightarrow> map JDict (entry_records tk v) = flat_entries tk v"
proof (cases v)
  case (JList es)
  assume "plain_entries v"
  with JList have "list_all plain_element es" by simp
  then have "map JDict (concat (map (element_records tk) es)) = map (flat_element tk) es"
    by (induction es) (simp_all add: element_records_plain)
  with JList show ?thesis by simp
qed simp_all

lemma normalize_ticker_lists:
  "ticker_lists items \<Longrightarrow> normalize_root (JDict items) = flat_list items"
proof -
  assume "ticker_lists items"
  then have "map JDict (dict_records items)
      = concat (map (\<lambda>(tk, entries). flat_entries tk entries) items)"
    unfolding dict_records_def ticker_lists_def
    by (induction items) (auto simp: entry_records_plain)
  then show ?thesis by (simp add: normalize_root_def flat_list_def)
qed

text \<open>
  Claim C1. Loading a document whose root maps each ticker to a list of record objects
  gives the same table (columns, rows and values) as loading the flat list of the same
  objects with the ticker as an explicit field \<^verbatim>\<open>Ticker\<close>; for the document
  \<^verbatim>\<open>{"A": [{"Date":0,"ProbUp":0.7,"Signal":"UP"}]}\<close> that table has the columns Ticker,
  Date, ProbUp, Signal and one row.
\<close>

theorem ticker_mapping_as_flat_list:
  "ticker_lists items \<Longrightarrow>
   load_predictions to_datetime to_numeric (fs(p \<mapsto> Parsed (JDict items))) p =
   load_predictions to_datetime to_numeric (fs(p \<mapsto> Parsed (flat_list items))) p"
  by (simp add: load_predictions_def normalize_ticker_lists) (simp add: normalize_root_def flat_list_def)


lemmas loader_defs =
  load_predictions_def normalize_root_def dict_records_def with_ticker_def dict_update_def
  DataFrame_def frame_of_records_def record_columns_def add_label_def record_cell_def
  required_columns_def ensure_column_def map_column_def datetime_cell_def numeric_cell_def

theorem ticker_mapping_as_flat_list_witness:
  "ticker_lists [(''A'', JList [JDict [(''Date'', JNum 0), (''ProbUp'', JNum 0.7), (''Signal'', JStr ''UP'')]])]
   \<and> flat_list [(''A'', JList [JDict [(''Date'', JNum 0), (''ProbUp'', JNum 0.7), (''Signal'', JStr ''UP'')]])]
       = JList [JDict [(''Ticker'', JStr ''A''), (''Date'', JNum 0), (''ProbUp'', JNum 0.7), (''Signal'', JStr ''UP'')]]
   \<and> load_predictions number_of number_of
        (Map.empty(''p.json'' \<mapsto> Parsed (JDict
           [(''A'', JList [JDict [(''Date'', JNum 0), (''ProbUp'', JNum 0.7), (''Signal'', JStr ''UP'')]])])))
        ''p.json''
     = Inr \<lparr>columns = [''Ticker'', ''Date'', ''ProbUp'', ''Signal''],
            rows = [[Py (JStr ''A''), Stamp 0, Float 0.7, Py (JStr ''UP'')]]\<rparr>
   \<and> load_predictions number_of number_of
        (Map.empty(''p.json'' \<mapsto> Parsed (JList
           [JDict [(''Ticker'', JStr ''A''), (''Date'', JNum 0), (''ProbUp'', JNum 0.7), (''Signal'', JStr ''UP'')]])))
        ''p.json''
     = Inr \<lparr>columns = [''Ticker'', ''Date'', ''ProbUp'', ''Signal''],
            rows = [[Py (JStr ''A''), Stamp 0, Float 0.7, Py (JStr ''UP'')]]\<rparr>"
proof -
  let ?items = "[(''A'', JList [JDict [(''Date'', JNum 0), (''ProbUp'', JNum 0.7), (''Signal'', JStr ''UP'')]])]"
  have ok: "ticker_lists ?items" by (simp add: ticker_lists_def)
  have flat: "flat_list ?items
       = JList [JDict [(''Ticker'', JStr ''A''), (''Date'', JNum 0), (''ProbUp'', JNum 0.7), (''Signal'', JStr ''UP'')]]"
    by (simp add: flat_list_def)
  have tbl: "load_predictions number_of number_of (Map.empty(''p.json'' \<mapsto> Parsed (JDict ?items))) ''p.json''
     = Inr \<lparr>columns = [''Ticker'', ''Date'', ''ProbUp'', ''Signal''],
            rows = [[Py (JStr ''A''), Stamp 0, Float 0.7, Py (JStr ''UP'')]]\<rparr>"
    by (simp add: loader_defs)
  from ticker_mapping_as_flat_list [OF ok, of number_of number_of Map.empty "''p.json''"] ok flat tbl
  show ?thesis by simp
qed

theorem own_ticker_overrides_witness:
  "map_of (with_ticker ''A'' [(''Ticker'', JStr ''B''), (''ProbUp'', JNum 0.1)]) ''Ticker'' = Some (JStr ''B'')
   \<and> entry_records ''A'' (JList [JNum 1, JDict [(''Ticker'', JStr ''B'')], JStr ''x'', JList []])
       = [[(''Ticker'', JStr ''B'')]]
   \<and> entry_records ''A'' (JNum 3) = []"
  using own_ticker_overrides [of "''A''" "[(''Ticker'', JStr ''B''), (''ProbUp'', JNum 0.1)]"
      "[JNum 1, JDict [(''Ticker'', JStr ''B'')], JStr ''x'', JList []]" True 3 "[]"]
  by (simp add: with_ticker_def dict_update_def List.map_filter_simps)

section \<open>Properties of the pipeline\<close>

subsection \<open>The two sorting functions\<close>

lemma mset_insert_by: "mset (insert_by le x xs) = add_mset x (mset xs)"
  by (induction xs) auto

lemma mset_isort: "mset (isort le xs) = mset xs"
  by (induction xs) (auto simp: mset_insert_by)

lemma set_insert_by: "set (insert_by le x xs) = insert x (set xs)"
  using mset_insert_by [of le x xs] by (metis set_mset_add_mset_insert set_mset_mset)

lemma sorted_insert_by:
  assumes "total_preorder le" and "sorted_wrt le xs"
  shows "sorted_wrt le (insert_by le x xs)"
  using assms(2)
proof (induction xs)
  case Nil
  then show ?case by simp
next
  case (Cons y ys)
  from assms(1) have total: "\<And>a b. le a b \<or> le b a"
    and trans: "\<And>a b c. le a b \<Longrightarrow> le b c \<Longrightarrow> le a c"
    unfolding total_preorder_def by blast+
  show ?case
  proof (cases "le x y")
    case True
    with Cons.prems trans show ?thesis by auto
  next
    case False
    with total have "le y x" by blast
    with False Cons show ?thesis by (auto simp: set_insert_by)
  qed
qed

lemma sorted_isort: "total_preorder le \<Longrightarrow> sorted_wrt le (isort le xs)"
  by (induction xs) (auto intro: sorted_insert_by)

lemma sorts_isort: "sorts isort"
  by (simp add: sorts_def mset_isort sorted_isort)





subsection \<open>The signal filter\<close>

text \<open>
  Claim C3. With \<open>include_up\<close> and \<open>include_down\<close> both false, the signal filter keeps
  the rows it keeps with both true, for every table and whatever the other settings
  are, and so does the whole pipeline: two unticked boxes never empty the table.
\<close>

theorem both_false_as_both_true:
  "signal_filter (spec\<lparr>include_up := False, include_down := False\<rparr>) df
     = signal_filter (spec\<lparr>include_up := True, include_down := True\<rparr>) df
   \<and> pipeline qs (spec\<lparr>include_up := False, include_down := False\<rparr>) df
     = pipeline qs (spec\<lparr>include_up := True, include_down := True\<rparr>) df"
  by (simp add: pipeline_def signal_filter_def signals_def range_filter_def in_range_def
      sort_rows_def limit_rows_def)

subsection \<open>The probability range\<close>

lemma missing_last_total:
  "\<forall>a b. le a b \<or> le b a \<Longrightarrow> missing_last le x y \<or> missing_last le y x"
  by (cases x; cases y) auto

lemma missing_last_trans:
  "\<forall>a b c. le a b \<longrightarrow> le b c \<longrightarrow> le a c \<Longrightarrow>
   missing_last le x y \<Longrightarrow> missing_last le y z \<Longrightarrow> missing_last le x z"
  by (cases x; cases y; cases z; simp)

lemma total_preorder_missing_last:
  assumes "total_preorder le"
  shows "total_preorder (\<lambda>a b. missing_last le (key a) (key b))"
proof -
  from assms have total: "\<forall>a b. le a b \<or> le b a"
    and trans: "\<forall>a b c. le a b \<longrightarrow> le b c \<longrightarrow> le a c"
    unfolding total_preorder_def by auto
  show ?thesis
    unfolding total_preorder_def
  proof (intro conjI allI impI)
    fix a b
    show "missing_last le (key a) (key b) \<or> missing_last le (key b) (key a)"
      by (rule missing_last_total [OF total])
  next
    fix a b c
    assume "missing_last le (key a) (key b)" "missing_last le (key b) (key c)"
    then show "missing_last le (key a) (key c)"
      by (rule missing_last_trans [OF trans])
  qed
qed

lemma total_preorder_le: "total_preorder ((\<le>) :: 'k::linorder \<Rightarrow> 'k \<Rightarrow> bool)"
  by (auto simp: total_preorder_def)

lemma total_preorder_ge: "total_preorder ((\<ge>) :: 'k::linorder \<Rightarrow> 'k \<Rightarrow> bool)"
  by (auto simp: total_preorder_def)

lemma mset_sort_values:
  assumes "sorts qs" and "total_preorder le"
  shows "mset (sort_values qs key le df) = mset df"
proof -
  have "mset (qs (\<lambda>a b. missing_last le (key a) (key b)) (filter (\<lambda>r. key r \<noteq> None) df))
      = mset (filter (\<lambda>r. key r \<noteq> None) df)"
    using assms(1) total_preorder_missing_last [OF assms(2)] unfolding sorts_def by blast
  then show ?thesis
    unfolding sort_values_def by (simp add: union_filter_mset_complement)
qed


lemma mset_sort_rows: "sorts qs \<Longrightarrow> mset (sort_rows qs spec df) = mset df"
  by (simp add: sort_rows_def mset_sort_values total_preorder_le total_preorder_ge)

lemma set_sort_rows: "sorts qs \<Longrightarrow> set (sort_rows qs spec df) = set df"
  by (metis mset_sort_rows set_mset_mset)

lemma set_limit_rows: "set (limit_rows spec df) \<subseteq> set df"
  by (auto simp: limit_rows_def head_def split: option.splits if_splits dest: in_set_takeD)


lemma set_pipeline:
  "sorts qs \<Longrightarrow> set (pipeline qs spec df) \<subseteq> set (range_filter spec (signal_filter spec df))"
  unfolding pipeline_def using set_limit_rows set_sort_rows by blast

text \<open>
  Claim C4. A row whose ProbUp is missing (the value was null or did not parse, so the
  loader left \<^verbatim>\<open>NaN\<close>) goes into the range test as \<open>-1\<close>; the test keeps exactly the rows
  with \<open>pmin \<le> ProbUp \<le> pmax\<close>, both ends included, and a missing ProbUp passes only if
  \<open>-1\<close> is in the range; so a range with \<open>0 \<le> pmin\<close> leaves no such row, neither after the
  test nor in what the pipeline returns. The test is a total function: nothing is raised.
\<close>

theorem range_test_inclusive:
  assumes "bounds (prob_range spec) = (pmin, pmax)" and "sorts qs"
  shows "range_filter spec df
           = filter (\<lambda>r. case ProbUp r of
                            None \<Rightarrow> pmin \<le> -1 \<and> -1 \<le> pmax
                          | Some p \<Rightarrow> pmin \<le> p \<and> p \<le> pmax) df
         \<and> fillna (-1) None = -1
         \<and> (0 \<le> pmin \<longrightarrow> (\<forall>r \<in> set (range_filter spec df). ProbUp r \<noteq> None))
         \<and> (0 \<le> pmin \<longrightarrow> (\<forall>r \<in> set (pipeline qs spec df). ProbUp r \<noteq> None))"
proof -
  have test: "in_range spec r \<longleftrightarrow>
      (case ProbUp r of None \<Rightarrow> pmin \<le> -1 \<and> -1 \<le> pmax | Some p \<Rightarrow> pmin \<le> p \<and> p \<le> pmax)" for r
    using assms(1) by (simp add: in_range_def fillna_def Let_def split: option.splits)
  have eq: "range_filter spec df
           = filter (\<lambda>r. case ProbUp r of
                            None \<Rightarrow> pmin \<le> -1 \<and> -1 \<le> pmax
                          | Some p \<Rightarrow> pmin \<le> p \<and> p \<le> pmax) df"
    unfolding range_filter_def using test by presburger
  have none: "ProbUp r \<noteq> None" if "0 \<le> pmin" "r \<in> set (range_filter spec df')" for r df'
    using that test [of r] by (auto simp: range_filter_def split: option.splits)
  have piped: "ProbUp r \<noteq> None" if "0 \<le> pmin" "r \<in> set (pipeline qs spec df)" for r
    using that set_pipeline [OF assms(2), of spec df] none by blast
  show ?thesis
  proof (intro conjI impI ballI)
    show "range_filter spec df
           = filter (\<lambda>r. case ProbUp r of
                            None \<Rightarrow> pmin \<le> -1 \<and> -1 \<le> pmax
                          | Some p \<Rightarrow> pmin \<le> p \<and> p \<le> pmax) df"
      by (rule eq)
  next
    show "fillna (-1) None = -1" by (simp add: fillna_def)
  next
    fix r assume "0 \<le> pmin" "r \<in> set (range_filter spec df)"
    then show "ProbUp r \<noteq> None" by (rule none)
  next
    fix r assume "0 \<le> pmin" "r \<in> set (pipeline qs spec df)"
    then show "ProbUp r \<noteq> None" by (rule piped)
  qed
qed


subsection \<open>Running the pipeline on its own output\<close>







subsection \<open>The pipeline on small tables\<close>

lemmas pipeline_defs =
  pipeline_def signal_filter_def signals_def Signal_u_def upper_def upper_char_def
  range_filter_def in_range_def fillna_def sort_rows_def sort_values_def limit_rows_def
  head_def rsort_def row_def sidebar_def

theorem both_false_as_both_true_witness:
  "signal_filter (sidebar\<lparr>include_up := False, include_down := False\<rparr>)
     [row ''A'' (Some 0) (Some 0.7) ''Up'', row ''B'' (Some 0) (Some 0.2) ''down'',
      row ''C'' (Some 0) (Some 0.5) ''HOLD'']
   = [row ''A'' (Some 0) (Some 0.7) ''Up'', row ''B'' (Some 0) (Some 0.2) ''down'']
   \<and> signal_filter (sidebar\<lparr>include_up := True, include_down := True\<rparr>)
     [row ''A'' (Some 0) (Some 0.7) ''Up'', row ''B'' (Some 0) (Some 0.2) ''down'',
      row ''C'' (Some 0) (Some 0.5) ''HOLD'']
   = [row ''A'' (Some 0) (Some 0.7) ''Up'', row ''B'' (Some 0) (Some 0.2) ''down'']"
  using both_false_as_both_true [of sidebar
      "[row ''A'' (Some 0) (Some 0.7) ''Up'', row ''B'' (Some 0) (Some 0.2) ''down'',
        row ''C'' (Some 0) (Some 0.5) ''HOLD'']" isort]
  by (simp add: pipeline_defs del: not_None_eq)

theorem range_test_inclusive_witness:
  "bounds (prob_range sidebar) = (0, 1)
   \<and> range_filter sidebar
       [row ''A'' (Some 0) (Some 1) ''UP'', row ''B'' (Some 0) None ''UP'',
        row ''C'' (Some 0) (Some 0) ''DOWN'', row ''D'' (Some 0) (Some 1.5) ''UP'']
     = [row ''A'' (Some 0) (Some 1) ''UP'', row ''C'' (Some 0) (Some 0) ''DOWN'']
   \<and> pipeline isort sidebar
       [row ''A'' (Some 0) (Some 1) ''UP'', row ''B'' (Some 0) None ''UP'',
        row ''C'' (Some 0) (Some 0) ''DOWN'', row ''D'' (Some 0) (Some 1.5) ''UP'']
     = [row ''A'' (Some 0) (Some 1) ''UP'', row ''C'' (Some 0) (Some 0) ''DOWN'']"
proof -
  have b: "bounds (prob_range sidebar) = (0, 1)" by (simp add: sidebar_def)
  from range_test_inclusive [OF b sorts_isort,
      of "[row ''A'' (Some 0) (Some 1) ''UP'', row ''B'' (Some 0) None ''UP'',
           row ''C'' (Some 0) (Some 0) ''DOWN'', row ''D'' (Some 0) (Some 1.5) ''UP'']"] b
  show ?thesis by (simp add: pipeline_defs del: not_None_eq)
qed





subsection \<open>The latest row of every ticker\<close>

lemma set_group_tail: "set (group_tail xs) \<subseteq> set xs"
  by (induction xs) auto

lemma group_tail_is_last:
  "r \<in> set (group_tail xs) \<Longrightarrow>
   \<exists>pre post. xs = pre @ r # post \<and> (\<forall>r' \<in> set post. Ticker r' \<noteq> Ticker r)"
proof (induction xs)
  case Nil
  then show ?case by simp
next
  case (Cons x xs)
  show ?case
  proof (cases "r \<in> set (group_tail xs)")
    case True
    with Cons.IH obtain pre post
      where "xs = pre @ r # post" "\<forall>r' \<in> set post. Ticker r' \<noteq> Ticker r" by blast
    then have "x # xs = (x # pre) @ r # post \<and> (\<forall>r' \<in> set post. Ticker r' \<noteq> Ticker r)" by simp
    then show ?thesis by blast
  next
    case False
    with Cons.prems have "r = x" and "\<not> list_ex (\<lambda>r'. Ticker r' = Ticker x) xs"
      by (auto split: if_splits)
    then have "x # xs = [] @ r # xs \<and> (\<forall>r' \<in> set xs. Ticker r' \<noteq> Ticker r)"
      by (auto simp: list_ex_iff)
    then show ?thesis by blast
  qed
qed

lemma group_tail_covers:
  "r \<in> set xs \<Longrightarrow> \<exists>r' \<in> set (group_tail xs). Ticker r' = Ticker r"
proof (induction xs arbitrary: r)
  case Nil
  then show ?case by simp
next
  case (Cons x xs)
  show ?case
  proof (cases "list_ex (\<lambda>r'. Ticker r' = Ticker x) xs")
    case True
    then obtain y where y: "y \<in> set xs" "Ticker y = Ticker x" by (auto simp: list_ex_iff)
    from Cons.prems have "r = x \<or> r \<in> set xs" by simp
    then have "\<exists>z \<in> set xs. Ticker z = Ticker r" using y by auto
    then obtain z where "z \<in> set xs" "Ticker z = Ticker r" by blast
    with Cons.IH [of z] have "\<exists>r' \<in> set (group_tail xs). Ticker r' = Ticker r" by simp
    with True show ?thesis by simp
  next
    case False
    from Cons.prems have "r = x \<or> r \<in> set xs" by simp
    then show ?thesis
    proof
      assume "r = x"
      with False show ?thesis by simp
    next
      assume "r \<in> set xs"
      with Cons.IH [of r] False show ?thesis by auto
    qed
  qed
qed

lemma group_tail_distinct: "distinct (map Ticker (group_tail xs))"
proof (induction xs)
  case Nil
  then show ?case by simp
next
  case (Cons x xs)
  have "Ticker x \<notin> Ticker ` set (group_tail xs)" if "\<not> list_ex (\<lambda>r'. Ticker r' = Ticker x) xs"
    using that set_group_tail [of xs] by (auto simp: list_ex_iff)
  with Cons show ?case by simp
qed

lemma total_preorder_by_ticker_date: "total_preorder by_ticker_date"
proof -
  have total: "\<forall>a b :: 'k::linorder. a \<le> b \<or> b \<le> a" by auto
  have trans: "\<forall>a b c :: 'k::linorder. a \<le> b \<longrightarrow> b \<le> c \<longrightarrow> a \<le> c" by auto
  have anti: "missing_last (\<le>) x y \<Longrightarrow> missing_last (\<le>) y x \<Longrightarrow> x = y"
    for x y :: "string option"
    by (cases x; cases y) auto
  show ?thesis
    unfolding total_preorder_def by_ticker_date_def
  proof (intro conjI allI impI)
    fix a b :: prediction
    show "(if ticker_key a = ticker_key b then missing_last (\<le>) (Date a) (Date b)
           else missing_last (\<le>) (ticker_key a) (ticker_key b))
        \<or> (if ticker_key b = ticker_key a then missing_last (\<le>) (Date b) (Date a)
           else missing_last (\<le>) (ticker_key b) (ticker_key a))"
      using missing_last_total [OF total, of "Date a" "Date b"]
        missing_last_total [OF total, of "ticker_key a" "ticker_key b"]
      by (cases "ticker_key a = ticker_key b") simp_all
  next
    fix a b c :: prediction
    assume ab: "if ticker_key a = ticker_key b then missing_last (\<le>) (Date a) (Date b)
           else missing_last (\<le>) (ticker_key a) (ticker_key b)"
      and bc: "if ticker_key b = ticker_key c then missing_last (\<le>) (Date b) (Date c)
           else missing_last (\<le>) (ticker_key b) (ticker_key c)"
    have tab: "missing_last (\<le>) (ticker_key a) (ticker_key b)"
      using ab missing_last_total [OF total, of "ticker_key a" "ticker_key a"]
      by (cases "ticker_key a = ticker_key b") simp_all
    have tbc: "missing_last (\<le>) (ticker_key b) (ticker_key c)"
      using bc missing_last_total [OF total, of "ticker_key b" "ticker_key b"]
      by (cases "ticker_key b = ticker_key c") simp_all
    have tac: "missing_last (\<le>) (ticker_key a) (ticker_key c)"
      using tab tbc by (rule missing_last_trans [OF trans])
    show "if ticker_key a = ticker_key c then missing_last (\<le>) (Date a) (Date c)
           else missing_last (\<le>) (ticker_key a) (ticker_key c)"
    proof (cases "ticker_key a = ticker_key c")
      case False
      with tac show ?thesis by simp
    next
      case True
      with tab tbc have "ticker_key a = ticker_key b"
        using anti [of "ticker_key a" "ticker_key b"] by simp
      with True ab bc have "missing_last (\<le>) (Date a) (Date b)" "missing_last (\<le>) (Date b) (Date c)"
        by simp_all
      then have "missing_last (\<le>) (Date a) (Date c)"
        by (rule missing_last_trans [OF trans])
      with True show ?thesis by simp
    qed
  qed
qed

text \<open>What the reduction does on every table: the rows kept are rows of the table that
  have a ticker, one for each ticker, and the row kept for a ticker comes last among that
  ticker's rows in the order of the dates with the missing dates at the end.\<close>

lemma latest_rows_last_in_order:
  "set (latest_rows df) \<subseteq> {r \<in> set df. ticker_key r \<noteq> None}
   \<and> distinct (map Ticker (latest_rows df))
   \<and> (\<forall>r \<in> set df. ticker_key r \<noteq> None \<longrightarrow> (\<exists>r' \<in> set (latest_rows df). Ticker r' = Ticker r))
   \<and> (\<forall>r \<in> set (latest_rows df). \<forall>r' \<in> set df.
        Ticker r' = Ticker r \<longrightarrow> missing_last (\<le>) (Date r') (Date r))"
proof -
  let ?sorted = "filter (\<lambda>r. ticker_key r \<noteq> None) (isort by_ticker_date df)"
  have set_sorted: "set ?sorted = {r \<in> set df. ticker_key r \<noteq> None}"
    using mset_isort [of by_ticker_date df] by (metis set_filter set_mset_mset)
  have ordered: "sorted_wrt by_ticker_date ?sorted"
    by (intro sorted_wrt_filter sorted_isort total_preorder_by_ticker_date)
  have refl: "by_ticker_date r r" for r
    using total_preorder_by_ticker_date unfolding total_preorder_def by blast
  have sub: "set (latest_rows df) \<subseteq> {r \<in> set df. ticker_key r \<noteq> None}"
    unfolding latest_rows_def using set_group_tail [of ?sorted] set_sorted by blast
  have dist: "distinct (map Ticker (latest_rows df))"
    unfolding latest_rows_def by (rule group_tail_distinct)
  have cover: "\<exists>r' \<in> set (latest_rows df). Ticker r' = Ticker r"
    if "r \<in> set df" "ticker_key r \<noteq> None" for r
    unfolding latest_rows_def using that set_sorted by (intro group_tail_covers) blast
  have last: "missing_last (\<le>) (Date r') (Date r)"
    if r: "r \<in> set (latest_rows df)" and r': "r' \<in> set df" and same: "Ticker r' = Ticker r" for r r'
  proof -
    from r obtain pre post where split: "?sorted = pre @ r # post"
      and later: "\<forall>x \<in> set post. Ticker x \<noteq> Ticker r"
      unfolding latest_rows_def using group_tail_is_last by blast
    from r sub same have "ticker_key r' \<noteq> None" by auto
    with r' set_sorted have "r' \<in> set ?sorted" by blast
    with split later same have "r' \<in> set pre \<or> r' = r" by auto
    moreover from ordered split have "\<forall>x \<in> set pre. by_ticker_date x r"
      by (simp add: sorted_wrt_append)
    ultimately have "by_ticker_date r' r" using refl by blast
    with same show ?thesis by (simp add: by_ticker_date_def)
  qed
  from sub dist cover last show ?thesis by blast
qed

text \<open>
  Claim C7. The reduction keeps one row for every ticker and runs before the pipeline,
  and with two dated records of a ticker it keeps the later one. The claim that the row
  kept is the one with the most recent date fails on the code where a ticker has a
  record without date: \<^verbatim>\<open>sort_values\<close> puts the missing date last, so \<^verbatim>\<open>tail(1)\<close> keeps
  the undated record and drops the dated ones, wherever the undated record stood in the
  file.
\<close>

theorem undated_row_kept_as_latest:
  "latest_rows [row ''A'' (Some 1000) (Some 0.7) ''UP'', row ''A'' None (Some 0.2) ''DOWN'']
     = [row ''A'' None (Some 0.2) ''DOWN'']
   \<and> latest_rows [row ''A'' None (Some 0.2) ''DOWN'', row ''A'' (Some 1000) (Some 0.7) ''UP'']
     = [row ''A'' None (Some 0.2) ''DOWN'']
   \<and> latest_rows [row ''A'' (Some 2000) (Some 0.7) ''UP'', row ''A'' (Some 1000) (Some 0.2) ''DOWN'']
     = [row ''A'' (Some 2000) (Some 0.7) ''UP'']
   \<and> share_rows isort (sidebar\<lparr>include_down := False\<rparr>)
        [row ''A'' (Some 1000) (Some 0.7) ''UP'', row ''A'' None (Some 0.2) ''DOWN''] = []"
  by (simp add: latest_rows_def by_ticker_date_def share_rows_def pipeline_defs del: not_None_eq)

section \<open>Properties of the classification report\<close>

subsection \<open>What a pattern matches\<close>

lemma atom_ok_Digit: "atom_ok Digit = is_digit"
  by (rule ext) simp

lemma atom_ok_Space: "atom_ok Space = is_space"
  by (rule ext) simp

lemma atom_ok_Lit: "atom_ok (Lit d) = (\<lambda>c. c = d)"
  by (rule ext) simp

lemma matches_One_iff:
  "s' \<in> set (matches (One a # r) s)
   \<longleftrightarrow> (\<exists>c t. s = c # t \<and> atom_ok a c \<and> s' \<in> set (matches r t))"
  by (cases s) auto

lemma matches_Opt_iff:
  "s' \<in> set (matches (Opt a # r) s)
   \<longleftrightarrow> s' \<in> set (matches r s) \<or> (\<exists>c t. s = c # t \<and> atom_ok a c \<and> s' \<in> set (matches r t))"
  by (cases s) auto

lemma matches_Star_iff:
  "s' \<in> set (matches (Star a # r) s)
   \<longleftrightarrow> (\<exists>ws t. s = ws @ t \<and> list_all (atom_ok a) ws \<and> s' \<in> set (matches r t))"
proof (induction s)
  case Nil
  show ?case by simp
next
  case (Cons c s)
  note IH = Cons.IH
  show ?case (is "?L \<longleftrightarrow> ?R")
  proof
    assume ?L
    then consider "atom_ok a c" and "s' \<in> set (matches (Star a # r) s)"
      | "s' \<in> set (matches r (c # s))"
      by (auto split: if_splits)
    then show ?R
    proof cases
      case 1
      then obtain ws t where "s = ws @ t" and "list_all (atom_ok a) ws"
        and "s' \<in> set (matches r t)"
        using IH by blast
      with 1(1) show ?thesis
        by (intro exI [of _ "c # ws"] exI [of _ t]) simp
    next
      case 2
      then show ?thesis
        by (intro exI [of _ "[]"] exI [of _ "c # s"]) simp
    qed
  next
    assume ?R
    then obtain ws t where eq: "c # s = ws @ t" and ws: "list_all (atom_ok a) ws"
      and m: "s' \<in> set (matches r t)"
      by blast
    show ?L
    proof (cases ws)
      case Nil
      with eq have "t = c # s" by simp
      with m show ?thesis by simp
    next
      case (Cons d ws')
      with eq ws have ok: "atom_ok a c" and "s = ws' @ t" and "list_all (atom_ok a) ws'"
        by auto
      with m IH have "s' \<in> set (matches (Star a # r) s)" by blast
      with ok show ?thesis by simp
    qed
  qed
qed

lemma matches_Plus_iff:
  "s' \<in> set (matches (Plus a # r) s)
   \<longleftrightarrow> (\<exists>c ws t. s = c # ws @ t \<and> atom_ok a c \<and> list_all (atom_ok a) ws
         \<and> s' \<in> set (matches r t))"
  by (cases s) (auto simp: matches_Star_iff)

lemma matches_lit: "matches (lit p @ r) (p @ t) = matches r t"
  by (induction p) (simp_all add: lit_def)

lemma matches_digits:
  "length d = n \<Longrightarrow> list_all is_digit d
   \<Longrightarrow> matches (replicate n (One Digit) @ r) (d @ s) = matches r s"
  by (induction d arbitrary: n) auto

lemma matches_number:
  assumes "s' \<in> set (matches number s)"
  shows "\<exists>ds1 dot c ds2. s = ds1 @ dot @ c # ds2 @ s' \<and> list_all is_digit ds1
     \<and> (dot = [] \<or> dot = ''.'') \<and> is_digit c \<and> list_all is_digit ds2"
proof -
  from assms obtain ds1 t where s: "s = ds1 @ t" and ds1: "list_all is_digit ds1"
    and t: "s' \<in> set (matches [Opt (Lit CHR ''.''), Plus Digit] t)"
    unfolding number_def matches_Star_iff atom_ok_Digit by auto
  from t have "s' \<in> set (matches [Plus Digit] t)
      \<or> (\<exists>c u. t = c # u \<and> atom_ok (Lit CHR ''.'') c \<and> s' \<in> set (matches [Plus Digit] u))"
    unfolding matches_Opt_iff .
  then have "\<exists>dot u. t = dot @ u \<and> (dot = [] \<or> dot = ''.'')
      \<and> s' \<in> set (matches [Plus Digit] u)"
  proof
    assume "s' \<in> set (matches [Plus Digit] t)"
    then show ?thesis by (intro exI [of _ "[]"] exI [of _ t]) simp
  next
    assume "\<exists>c u. t = c # u \<and> atom_ok (Lit CHR ''.'') c \<and> s' \<in> set (matches [Plus Digit] u)"
    then obtain c u where "t = c # u" and "c = CHR ''.''"
      and "s' \<in> set (matches [Plus Digit] u)"
      by auto
    then show ?thesis by (intro exI [of _ "''.''"] exI [of _ u]) simp
  qed
  then obtain dot u where tu: "t = dot @ u" and dot: "dot = [] \<or> dot = ''.''"
    and u: "s' \<in> set (matches [Plus Digit] u)"
    by blast
  from u obtain c ds2 where "u = c # ds2 @ s'" and "is_digit c" and "list_all is_digit ds2"
    unfolding matches_Plus_iff atom_ok_Digit by auto
  with s ds1 tu dot show ?thesis by blast
qed

lemma number_matches:
  assumes "list_all is_digit ds" and "ds \<noteq> []"
  shows "s' \<in> set (matches number (ds @ s'))"
proof -
  from assms obtain c ds2 where ds: "ds = c # ds2" and c: "is_digit c"
    and ds2: "list_all is_digit ds2"
    by (cases ds) auto
  have "s' \<in> set (matches [Plus Digit] (ds @ s'))"
    unfolding matches_Plus_iff atom_ok_Digit using ds c ds2 by auto
  then have "s' \<in> set (matches [Opt (Lit CHR ''.''), Plus Digit] (ds @ s'))"
    unfolding matches_Opt_iff by simp
  then have "\<exists>ws t. ds @ s' = ws @ t \<and> list_all (atom_ok Digit) ws
      \<and> s' \<in> set (matches [Opt (Lit CHR ''.''), Plus Digit] t)"
    by (intro exI [of _ "[]"] exI [of _ "ds @ s'"]) simp
  then show ?thesis
    unfolding number_def matches_Star_iff .
qed

lemma star_matches:
  "list_all (atom_ok a) ws \<Longrightarrow> s' \<in> set (matches r t)
   \<Longrightarrow> s' \<in> set (matches (Star a # r) (ws @ t))"
  unfolding matches_Star_iff by blast

subsection \<open>What a search finds\<close>

lemma match_here_Some:
  assumes "match_here p g q s = Some x"
  shows "\<exists>s1 s2. s1 \<in> set (matches p s) \<and> s2 \<in> set (matches g s1)
     \<and> x = take (length s1 - length s2) s1"
proof -
  define L where "L = [take (length s1 - length s2) s1.
     s1 \<leftarrow> matches p s, s2 \<leftarrow> matches g s1, s3 \<leftarrow> matches q s2]"
  from assms have "\<exists>xs. L = x # xs"
    unfolding match_here_def L_def by (simp split: list.splits)
  then have "x \<in> set L" by auto
  then show ?thesis unfolding L_def by auto
qed

lemma match_here_found:
  assumes "s1 \<in> set (matches p s)" and "s2 \<in> set (matches g s1)" and "s3 \<in> set (matches q s2)"
  shows "match_here p g q s \<noteq> None"
proof -
  define L where "L = [take (length s1 - length s2) s1.
     s1 \<leftarrow> matches p s, s2 \<leftarrow> matches g s1, s3 \<leftarrow> matches q s2]"
  from assms have "take (length s1 - length s2) s1 \<in> set L"
    unfolding L_def by auto
  then have "L \<noteq> []" by auto
  then show ?thesis
    unfolding match_here_def L_def by (simp split: list.splits)
qed

lemma match_here_single:
  "matches p s = [s1] \<Longrightarrow> matches g s1 = [s2] \<Longrightarrow> matches q s2 = [s3]
   \<Longrightarrow> match_here p g q s = Some (take (length s1 - length s2) s1)"
  by (simp add: match_here_def)

lemma search_Some:
  "search p g q s = Some x
   \<Longrightarrow> \<exists>t s1 s2. s1 \<in> set (matches p t) \<and> s2 \<in> set (matches g s1)
         \<and> x = take (length s1 - length s2) s1"
proof (induction s)
  case Nil
  then show ?case using match_here_Some [of p g q "[]" x] by auto
next
  case (Cons c s)
  show ?case
  proof (cases "match_here p g q (c # s)")
    case None
    with Cons show ?thesis by simp
  next
    case (Some y)
    with Cons.prems have "match_here p g q (c # s) = Some x" by simp
    from match_here_Some [OF this] show ?thesis by blast
  qed
qed

lemma search_here: "match_here p g q t \<noteq> None \<Longrightarrow> search p g q t \<noteq> None"
  by (cases t) auto

lemma search_found: "match_here p g q t \<noteq> None \<Longrightarrow> search p g q (u @ t) \<noteq> None"
  by (induction u) (auto simp: search_here split: option.splits)

subsection \<open>The scalar metrics\<close>

lemma not_digit_point: "\<not> is_digit CHR ''.''"
  by (simp add: is_digit_def)

lemma float_of_numeral:
  assumes "list_all is_digit ds1" and "dot = [] \<or> dot = ''.''" and "is_digit c"
    and "list_all is_digit ds2"
  shows "float_of (ds1 @ dot @ c # ds2) \<noteq> None"
proof -
  from assms(1) have ds1: "\<forall>x \<in> set ds1. is_digit x" by (simp add: list_all_iff)
  from assms(4) have ds2: "\<forall>x \<in> set ds2. is_digit x" by (simp add: list_all_iff)
  from assms(2) show ?thesis
  proof
    assume dot: "dot = []"
    have all: "\<forall>x \<in> set (ds1 @ c # ds2). is_digit x" using ds1 ds2 assms(3) by auto
    then have tw: "takeWhile is_digit (ds1 @ c # ds2) = ds1 @ c # ds2"
      and dw: "dropWhile is_digit (ds1 @ c # ds2) = []"
      by (simp_all only: takeWhile_eq_all_conv dropWhile_eq_Nil_conv)
    show ?thesis unfolding dot float_of_def Let_def append_Nil tw dw by simp
  next
    assume dot: "dot = ''.''"
    have tw: "takeWhile is_digit (ds1 @ CHR ''.'' # c # ds2) = ds1"
      and dw: "dropWhile is_digit (ds1 @ CHR ''.'' # c # ds2) = CHR ''.'' # c # ds2"
      using ds1 not_digit_point by (simp_all add: takeWhile_append2 dropWhile_append2)
    have "float_of (ds1 @ CHR ''.'' # c # ds2) \<noteq> None"
      unfolding float_of_def Let_def tw dw using assms(3,4) by simp
    then show ?thesis by (simp add: dot)
  qed
qed

lemma float_of_group:
  assumes "search p number q s = Some g"
  shows "float_of g \<noteq> None"
proof -
  from search_Some [OF assms] obtain s1 s2 where m: "s2 \<in> set (matches number s1)"
    and g: "g = take (length s1 - length s2) s1"
    by blast
  from matches_number [OF m] obtain ds1 dot c ds2 where s1: "s1 = ds1 @ dot @ c # ds2 @ s2"
    and n: "list_all is_digit ds1" "dot = [] \<or> dot = ''.''" "is_digit c" "list_all is_digit ds2"
    by blast
  have "s1 = (ds1 @ dot @ c # ds2) @ s2" using s1 by simp
  then have "g = ds1 @ dot @ c # ds2" unfolding g by (simp only: length_append) simp
  with float_of_numeral [OF n] show ?thesis by simp
qed

lemma extract_from_keys:
  "\<exists>m. extract_from ps raw = Inr m
     \<and> map fst m = map fst (filter (\<lambda>(label, pattern). search pattern number [] raw \<noteq> None) ps)"
proof (induction ps)
  case Nil
  show ?case by simp
next
  case (Cons lp ps)
  obtain label pattern where lp: "lp = (label, pattern)" by (cases lp)
  from Cons obtain m where m: "extract_from ps raw = Inr m"
    and k: "map fst m
      = map fst (filter (\<lambda>(label, pattern). search pattern number [] raw \<noteq> None) ps)"
    by blast
  show ?case
  proof (cases "search pattern number [] raw")
    case None
    with m k lp show ?thesis by simp
  next
    case (Some g)
    with float_of_group obtain v where "float_of g = Some v" by blast
    with Some m k lp show ?thesis by simp
  qed
qed

lemma found_after:
  assumes "list_all is_digit ds" and "ds \<noteq> []" and "rest \<in> set (matches pattern t)"
    and "t = rest' @ post" and "rest = ds @ post"
  shows "search pattern number [] (pre @ t) \<noteq> None"
proof -
  have "post \<in> set (matches number rest)"
    unfolding assms(5) by (rule number_matches [OF assms(1,2)])
  moreover have "post \<in> set (matches [] post)" by simp
  ultimately have "match_here pattern number [] t \<noteq> None"
    using assms(3) by (rule match_here_found [rotated])
  then show ?thesis by (rule search_found)
qed

text \<open>
  Claim C8, amended. For every report text the extraction ends without an error, and the
  mapping it builds has exactly the labels whose pattern matches somewhere in the text,
  in the order ROC-AUC, Accuracy, Precision, Recall: a metric whose pattern matches
  nowhere is absent. White space (\<open>ws1\<close>, \<open>ws2\<close>) is accepted after the colon of ROC-AUC,
  Accuracy and Precision, and before the colon of Accuracy and Recall; after the colon
  of Recall only blanks (\<open>sp\<close>) are. The patterns of ROC-AUC and Precision take no
  character between the name and the colon.
\<close>

theorem metrics_found_or_absent:
  assumes "list_all is_space ws1" and "list_all is_space ws2"
    and "list_all (\<lambda>c. c = CHR '' '') sp" and "list_all is_digit ds" and "ds \<noteq> []"
  shows "(\<exists>m. extracted_metrics raw = Inr m
            \<and> map fst m = map fst (filter (\<lambda>(label, pattern).
                  search pattern number [] raw \<noteq> None) metric_patterns))
       \<and> (\<exists>m. extracted_metrics (pre @ ''ROC-AUC:'' @ ws2 @ ds @ post) = Inr m
            \<and> ''ROC-AUC'' \<in> set (map fst m))
       \<and> (\<exists>m. extracted_metrics (pre @ ''Accuracy'' @ ws1 @ '':'' @ ws2 @ ds @ post) = Inr m
            \<and> ''Accuracy'' \<in> set (map fst m))
       \<and> (\<exists>m. extracted_metrics (pre @ ''Precision:'' @ ws2 @ ds @ post) = Inr m
            \<and> ''Precision'' \<in> set (map fst m))
       \<and> (\<exists>m. extracted_metrics (pre @ ''Recall'' @ ws1 @ '':'' @ sp @ ds @ post) = Inr m
            \<and> ''Recall'' \<in> set (map fst m))"
proof -
  have keys: "\<exists>m. extracted_metrics r = Inr m
      \<and> map fst m = map fst (filter (\<lambda>(label, pattern).
            search pattern number [] r \<noteq> None) metric_patterns)" for r
    unfolding extracted_metrics_def by (rule extract_from_keys)
  have found: "\<exists>m. extracted_metrics r = Inr m \<and> label \<in> set (map fst m)"
    if "(label, pattern) \<in> set metric_patterns" and "search pattern number [] r \<noteq> None"
    for r label pattern
  proof -
    from keys [of r] obtain m where m: "extracted_metrics r = Inr m"
      and k: "map fst m = map fst (filter (\<lambda>(label, pattern).
            search pattern number [] r \<noteq> None) metric_patterns)"
      by blast
    from that have "(label, pattern) \<in> set (filter (\<lambda>(label, pattern).
            search pattern number [] r \<noteq> None) metric_patterns)"
      by simp
    then have "label \<in> set (map fst m)" unfolding k by (metis fst_conv image_eqI set_map)
    with m show ?thesis by blast
  qed
  have ws1: "list_all (atom_ok Space) ws1" and ws2: "list_all (atom_ok Space) ws2"
    and sp: "list_all (atom_ok (Lit CHR '' '')) sp"
    unfolding atom_ok_Space atom_ok_Lit by (rule assms)+
  have here: "ds @ post \<in> set (matches [] (ds @ post))" by simp
  have after2: "ds @ post \<in> set (matches [Star Space] (ws2 @ ds @ post))"
    by (rule star_matches [OF ws2 here])
  have aftersp: "ds @ post \<in> set (matches [Star (Lit CHR '' '')] (sp @ ds @ post))"
    by (rule star_matches [OF sp here])
  have colon2: "ds @ post \<in> set (matches (lit '':'' @ [Star Space]) ('':'' @ ws2 @ ds @ post))"
    unfolding matches_lit by (rule after2)
  have colonsp: "ds @ post
      \<in> set (matches (lit '':'' @ [Star (Lit CHR '' '')]) ('':'' @ sp @ ds @ post))"
    unfolding matches_lit by (rule aftersp)
  have roc: "ds @ post
      \<in> set (matches (lit ''ROC-AUC:'' @ [Star Space]) (''ROC-AUC:'' @ ws2 @ ds @ post))"
    unfolding matches_lit by (rule after2)
  have prec: "ds @ post
      \<in> set (matches (lit ''Precision:'' @ [Star Space]) (''Precision:'' @ ws2 @ ds @ post))"
    unfolding matches_lit by (rule after2)
  have acc: "ds @ post
      \<in> set (matches (lit ''Accuracy'' @ [Star Space] @ lit '':'' @ [Star Space])
           (''Accuracy'' @ ws1 @ '':'' @ ws2 @ ds @ post))"
    using star_matches [OF ws1 colon2]
      matches_lit [of "''Accuracy''" "[Star Space] @ lit '':'' @ [Star Space]"
        "ws1 @ '':'' @ ws2 @ ds @ post"]
    by simp
  have rec: "ds @ post
      \<in> set (matches (lit ''Recall'' @ [Star Space] @ lit '':'' @ [Star (Lit CHR '' '')])
           (''Recall'' @ ws1 @ '':'' @ sp @ ds @ post))"
    using star_matches [OF ws1 colonsp]
      matches_lit [of "''Recall''" "[Star Space] @ lit '':'' @ [Star (Lit CHR '' '')]"
        "ws1 @ '':'' @ sp @ ds @ post"]
    by simp
  have d: "list_all is_digit ds" "ds \<noteq> []" by (rule assms)+
  have s_roc: "search (lit ''ROC-AUC:'' @ [Star Space]) number []
      (pre @ ''ROC-AUC:'' @ ws2 @ ds @ post) \<noteq> None"
    by (rule found_after [OF d roc]) simp_all
  have s_prec: "search (lit ''Precision:'' @ [Star Space]) number []
      (pre @ ''Precision:'' @ ws2 @ ds @ post) \<noteq> None"
    by (rule found_after [OF d prec]) simp_all
  have s_acc: "search (lit ''Accuracy'' @ [Star Space] @ lit '':'' @ [Star Space]) number []
      (pre @ ''Accuracy'' @ ws1 @ '':'' @ ws2 @ ds @ post) \<noteq> None"
    by (rule found_after [OF d acc]) simp_all
  have s_rec: "search (lit ''Recall'' @ [Star Space] @ lit '':'' @ [Star (Lit CHR '' '')])
      number [] (pre @ ''Recall'' @ ws1 @ '':'' @ sp @ ds @ post) \<noteq> None"
    by (rule found_after [OF d rec]) simp_all
  show ?thesis
  proof (intro conjI)
    show "\<exists>m. extracted_metrics raw = Inr m
      \<and> map fst m = map fst (filter (\<lambda>(label, pattern).
            search pattern number [] raw \<noteq> None) metric_patterns)"
      by (rule keys)
    show "\<exists>m. extracted_metrics (pre @ ''ROC-AUC:'' @ ws2 @ ds @ post) = Inr m
            \<and> ''ROC-AUC'' \<in> set (map fst m)"
      by (rule found [OF _ s_roc]) (simp add: metric_patterns_def)
    show "\<exists>m. extracted_metrics (pre @ ''Accuracy'' @ ws1 @ '':'' @ ws2 @ ds @ post) = Inr m
            \<and> ''Accuracy'' \<in> set (map fst m)"
      by (rule found [OF _ s_acc]) (simp add: metric_patterns_def)
    show "\<exists>m. extracted_metrics (pre @ ''Precision:'' @ ws2 @ ds @ post) = Inr m
            \<and> ''Precision'' \<in> set (map fst m)"
      by (rule found [OF _ s_prec]) (simp add: metric_patterns_def)
    show "\<exists>m. extracted_metrics (pre @ ''Recall'' @ ws1 @ '':'' @ sp @ ds @ post) = Inr m
            \<and> ''Recall'' \<in> set (map fst m)"
      by (rule found [OF _ s_rec]) (simp add: metric_patterns_def)
  qed
qed

lemmas report_defs =
  extracted_metrics_def metric_patterns_def lit_def number_def match_here_def float_of_def
  is_digit_def is_space_def digits_value_def digit_value_def Let_def

theorem metrics_found_or_absent_witness:
  "list_all is_space '' '' \<and> list_all is_space [CHR 0x09, CHR '' '']
   \<and> list_all (\<lambda>c. c = CHR '' '') ''  '' \<and> list_all is_digit ''75'' \<and> ''75'' \<noteq> []
   \<and> extracted_metrics ''ROC-AUC: 0.812, Accuracy : .75''
       = Inr [(''ROC-AUC'', 203 / 250), (''Accuracy'', 3 / 4)]
   \<and> (\<exists>m. extracted_metrics (''x'' @ ''Recall'' @ '' '' @ '':'' @ ''  '' @ ''75'' @ ''y'') = Inr m
         \<and> ''Recall'' \<in> set (map fst m))
   \<and> (\<exists>m. extracted_metrics
           (''x'' @ ''Accuracy'' @ '' '' @ '':'' @ [CHR 0x09, CHR '' ''] @ ''75'' @ ''y'') = Inr m
         \<and> ''Accuracy'' \<in> set (map fst m))"
proof -
  have h: "list_all is_space '' ''" "list_all is_space [CHR 0x09, CHR '' '']"
    "list_all (\<lambda>c. c = CHR '' '') ''  ''" "list_all is_digit ''75''" "''75'' \<noteq> []"
    by (simp_all add: is_space_def is_digit_def)
  have v: "extracted_metrics ''ROC-AUC: 0.812, Accuracy : .75''
       = Inr [(''ROC-AUC'', 203 / 250), (''Accuracy'', 3 / 4)]"
    by (simp add: report_defs del: not_None_eq)
  from metrics_found_or_absent [OF h, of "''ROC-AUC: 0.812, Accuracy : .75''" "''x''" "''y''"]
    h v
  show ?thesis by (intro conjI) blast+
qed

text \<open>
  Claim C8 as the specification states it fails before the colon of ROC-AUC and of
  Precision, where the patterns accept no white space, and after the colon of Recall,
  where the pattern accepts blanks and no tabulator: these three reports give no metric.
\<close>

theorem space_before_colon_not_matched:
  "extracted_metrics ''ROC-AUC : 0.812'' = Inr []
   \<and> extracted_metrics ''Precision : 0.5'' = Inr []
   \<and> extracted_metrics (''Recall:'' @ [CHR 0x09] @ ''0.5'') = Inr []
   \<and> extracted_metrics ''ROC-AUC: 0.812'' = Inr [(''ROC-AUC'', 203 / 250)]"
  by (simp add: report_defs del: not_None_eq)

subsection \<open>The report file\<close>

lemma with_keys_stamps:
  "\<forall>f \<in> set fs. file_key strptime f = Inr (Some (stamp f))
   \<Longrightarrow> with_keys strptime fs = Inr (map (\<lambda>f. (f, Some (stamp f))) fs)"
  by (induction fs) simp_all

lemma sorted_last_max:
  "sorted_wrt le ys \<Longrightarrow> ys \<noteq> [] \<Longrightarrow> \<forall>a. le a a \<Longrightarrow> \<forall>x \<in> set ys. le x (last ys)"
  by (induction ys) auto

lemma last_isort_max:
  assumes "total_preorder le" and "xs \<noteq> []"
  shows "last (isort le xs) \<in> set xs \<and> (\<forall>x \<in> set xs. le x (last (isort le xs)))"
proof -
  have s: "set (isort le xs) = set xs"
    using mset_isort [of le xs] by (metis set_mset_mset)
  with assms(2) have ne: "isort le xs \<noteq> []" by auto
  from assms(1) have refl: "\<forall>a. le a a" unfolding total_preorder_def by blast
  from sorted_last_max [OF sorted_isort [OF assms(1)] ne refl] last_in_set [OF ne] s
  show ?thesis by auto
qed

lemma extract_timestamp_stamp:
  assumes "length d = 8" and "list_all is_digit d" and "length t = 6" and "list_all is_digit t"
  shows "extract_timestamp (''Klassifikationsreport_'' @ d @ ''_'' @ t @ ''.txt'') = d @ ''_'' @ t"
proof -
  let ?grp = "replicate 8 (One Digit) @ [One (Lit CHR ''_'')] @ replicate 6 (One Digit)"
  have pre: "matches (lit ''Klassifikationsreport_'')
      (''Klassifikationsreport_'' @ d @ ''_'' @ t @ ''.txt'') = [d @ ''_'' @ t @ ''.txt'']"
    using matches_lit [of "''Klassifikationsreport_''" "[]" "d @ ''_'' @ t @ ''.txt''"]
    by simp
  have "matches (replicate 6 (One Digit) @ []) (t @ ''.txt'') = matches [] ''.txt''"
    by (rule matches_digits [OF assms(3,4)])
  then have t: "matches (replicate 6 (One Digit)) (t @ ''.txt'') = [''.txt'']" by simp
  have "matches ?grp (d @ ''_'' @ t @ ''.txt'')
      = matches ([One (Lit CHR ''_'')] @ replicate 6 (One Digit)) (''_'' @ t @ ''.txt'')"
    by (rule matches_digits [OF assms(1,2)])
  with t have grp: "matches ?grp (d @ ''_'' @ t @ ''.txt'') = [''.txt'']" by simp
  have post: "matches (lit ''.txt'') ''.txt'' = [[]]"
    using matches_lit [of "''.txt''" "[]" "[]"] by simp
  have "match_here (lit ''Klassifikationsreport_'') ?grp (lit ''.txt'')
      (''Klassifikationsreport_'' @ d @ ''_'' @ t @ ''.txt'') = Some (d @ ''_'' @ t)"
    using match_here_single [OF pre grp post] by simp
  then show ?thesis
    unfolding extract_timestamp_def by simp
qed

text \<open>
  Claim C9, amended. A name of the folder is a candidate if and only if it starts with
  \<^verbatim>\<open>Klassifikationsreport_\<close> and ends with \<^verbatim>\<open>.txt\<close>, which every name of the form
  \<^verbatim>\<open>Klassifikationsreport_<8 digits>_<6 digits>.txt\<close> does, and the timestamp of such a
  name is the part between. When every candidate has a timestamp that reads as a date,
  \<open>stamp f\<close> for the candidate \<open>f\<close>, the file selected is a candidate and no candidate has
  a later timestamp.
\<close>

theorem latest_report_selected:
  fixes strptime :: "string \<Rightarrow> 't::linorder option"
  assumes "report_files names \<noteq> []"
    and "\<forall>f \<in> set (report_files names). file_key strptime f = Inr (Some (stamp f))"
  shows "(\<forall>f. f \<in> set (report_files names)
            \<longleftrightarrow> f \<in> set names \<and> prefix ''Klassifikationsreport_'' f \<and> suffix ''.txt'' f)
       \<and> (\<forall>d t. length d = 8 \<and> list_all is_digit d \<and> length t = 6 \<and> list_all is_digit t
            \<longrightarrow> extract_timestamp (''Klassifikationsreport_'' @ d @ ''_'' @ t @ ''.txt'')
                  = d @ ''_'' @ t
                \<and> (''Klassifikationsreport_'' @ d @ ''_'' @ t @ ''.txt'' \<in> set names
                   \<longrightarrow> ''Klassifikationsreport_'' @ d @ ''_'' @ t @ ''.txt''
                         \<in> set (report_files names)))
       \<and> (\<exists>f. latest_file strptime (Some names) = Inr (Latest f)
            \<and> f \<in> set (report_files names)
            \<and> (\<forall>g \<in> set (report_files names). stamp g \<le> stamp f))"
proof (intro conjI allI impI)
  fix f
  show "f \<in> set (report_files names)
      \<longleftrightarrow> f \<in> set names \<and> prefix ''Klassifikationsreport_'' f \<and> suffix ''.txt'' f"
    by (simp add: report_files_def)
next
  fix d t :: string
  assume "length d = 8 \<and> list_all is_digit d \<and> length t = 6 \<and> list_all is_digit t"
  with extract_timestamp_stamp [of d t]
  show "extract_timestamp (''Klassifikationsreport_'' @ d @ ''_'' @ t @ ''.txt'')
      = d @ ''_'' @ t"
    by blast
next
  fix d t :: string
  assume "''Klassifikationsreport_'' @ d @ ''_'' @ t @ ''.txt'' \<in> set names"
  moreover have "suffix ''.txt'' (''Klassifikationsreport_'' @ d @ ''_'' @ t @ ''.txt'')"
    unfolding suffix_def by (intro exI [of _ "''Klassifikationsreport_'' @ d @ ''_'' @ t"]) simp
  ultimately show "''Klassifikationsreport_'' @ d @ ''_'' @ t @ ''.txt''
      \<in> set (report_files names)"
    by (simp add: report_files_def)
next
  define ks where "ks = map (\<lambda>f. (f, Some (stamp f))) (report_files names)"
  define le where "le = (\<lambda>(a :: string \<times> 't option) (b :: string \<times> 't option).
    missing_last (\<le>) (snd a) (snd b))"
  have keys: "with_keys strptime (report_files names) = Inr ks"
    unfolding ks_def by (rule with_keys_stamps [OF assms(2)])
  have all: "list_all (\<lambda>(f, k). k \<noteq> None) ks"
    unfolding ks_def by (simp add: list_all_iff)
  have sel: "latest_file strptime (Some names) = Inr (Latest (fst (last (isort le ks))))"
    unfolding latest_file_def le_def using assms(1) keys all by simp
  have ne: "ks \<noteq> []" unfolding ks_def using assms(1) by simp
  have tp: "total_preorder le"
    unfolding le_def by (rule total_preorder_missing_last [OF total_preorder_le])
  from last_isort_max [OF tp ne]
  have mem: "last (isort le ks) \<in> set ks" and top: "\<forall>x \<in> set ks. le x (last (isort le ks))"
    by blast+
  from mem obtain f where f: "f \<in> set (report_files names)"
    and l: "last (isort le ks) = (f, Some (stamp f))"
    unfolding ks_def by auto
  have "\<forall>g \<in> set (report_files names). stamp g \<le> stamp f"
  proof
    fix g
    assume "g \<in> set (report_files names)"
    then have "(g, Some (stamp g)) \<in> set ks" unfolding ks_def by simp
    with top l have "le (g, Some (stamp g)) (f, Some (stamp f))" by auto
    then show "stamp g \<le> stamp f" unfolding le_def by simp
  qed
  with sel l f
  show "\<exists>f. latest_file strptime (Some names) = Inr (Latest f)
      \<and> f \<in> set (report_files names) \<and> (\<forall>g \<in> set (report_files names). stamp g \<le> stamp f)"
    by auto
qed

lemma timestamp_group:
  "replicate 8 (One Digit) @ One (Lit CHR ''_'') # replicate 6 (One Digit)
   = [One Digit, One Digit, One Digit, One Digit, One Digit, One Digit, One Digit, One Digit,
      One (Lit CHR ''_''),
      One Digit, One Digit, One Digit, One Digit, One Digit, One Digit]"
  by (simp add: eval_nat_numeral)

lemmas selection_defs =
  extract_timestamp_def timestamp_group lit_def match_here_def is_digit_def

theorem latest_report_selected_witness:
  "report_files [''Klassifikationsreport_20240101_120000.txt'', ''notes.txt'',
       ''Klassifikationsreport_20250101_120000.txt'',
       ''Klassifikationsreport_20240101_130000.txt'']
     = [''Klassifikationsreport_20240101_120000.txt'',
        ''Klassifikationsreport_20250101_120000.txt'',
        ''Klassifikationsreport_20240101_130000.txt'']
   \<and> latest_file stamp_number
       (Some [''Klassifikationsreport_20240101_120000.txt'', ''notes.txt'',
          ''Klassifikationsreport_20250101_120000.txt'',
          ''Klassifikationsreport_20240101_130000.txt''])
     = Inr (Latest ''Klassifikationsreport_20250101_120000.txt'')"
proof -
  let ?names = "[''Klassifikationsreport_20240101_120000.txt'', ''notes.txt'',
       ''Klassifikationsreport_20250101_120000.txt'',
       ''Klassifikationsreport_20240101_130000.txt'']"
  let ?stamp = "\<lambda>f. digits_value (filter is_digit (extract_timestamp f))"
  have files: "report_files ?names
     = [''Klassifikationsreport_20240101_120000.txt'',
        ''Klassifikationsreport_20250101_120000.txt'',
        ''Klassifikationsreport_20240101_130000.txt'']"
    by (simp add: report_files_def suffix_to_prefix)
  have stamps:
    "extract_timestamp ''Klassifikationsreport_20240101_120000.txt'' = ''20240101_120000''"
    "extract_timestamp ''Klassifikationsreport_20250101_120000.txt'' = ''20250101_120000''"
    "extract_timestamp ''Klassifikationsreport_20240101_130000.txt'' = ''20240101_130000''"
    by (simp_all add: selection_defs)
  have ne: "report_files ?names \<noteq> []" unfolding files by simp
  have keys: "\<forall>f \<in> set (report_files ?names). file_key stamp_number f = Inr (Some (?stamp f))"
    unfolding files by (simp add: file_key_def stamp_number_def stamps)
  have vals: "?stamp ''Klassifikationsreport_20240101_120000.txt'' = 20240101120000"
    "?stamp ''Klassifikationsreport_20250101_120000.txt'' = 20250101120000"
    "?stamp ''Klassifikationsreport_20240101_130000.txt'' = 20240101130000"
    unfolding stamps by (simp_all add: is_digit_def digits_value_def digit_value_def)
  from latest_report_selected [OF ne keys]
  obtain f where sel: "latest_file stamp_number (Some ?names) = Inr (Latest f)"
    and f: "f \<in> set (report_files ?names)"
    and top: "\<forall>g \<in> set (report_files ?names). ?stamp g \<le> ?stamp f"
    by blast
  from top have "?stamp ''Klassifikationsreport_20250101_120000.txt'' \<le> ?stamp f"
    unfolding files by simp
  with f have "f = ''Klassifikationsreport_20250101_120000.txt''"
    unfolding files using vals by auto
  with sel files show ?thesis by simp
qed

text \<open>
  Claim C9 as the specification states it fails on the candidates: a name that starts and
  ends as the report files do is a candidate whatever stands between, and alone in the
  folder it is the file the tab opens, though nothing in it matches the pattern.
\<close>

theorem unstamped_name_selected:
  "report_files [''Klassifikationsreport_x.txt'', ''notes.txt'']
     = [''Klassifikationsreport_x.txt'']
   \<and> extract_timestamp ''Klassifikationsreport_x.txt'' = []
   \<and> latest_file stamp_number (Some [''Klassifikationsreport_x.txt'', ''notes.txt''])
     = Inr (Latest ''Klassifikationsreport_x.txt'')"
proof -
  have files: "report_files [''Klassifikationsreport_x.txt'', ''notes.txt'']
     = [''Klassifikationsreport_x.txt'']"
    by (simp add: report_files_def suffix_to_prefix)
  have stamp: "extract_timestamp ''Klassifikationsreport_x.txt'' = []"
    by (simp add: selection_defs)
  have "latest_file stamp_number (Some [''Klassifikationsreport_x.txt'', ''notes.txt''])
     = Inr (Latest ''Klassifikationsreport_x.txt'')"
    by (simp add: latest_file_def files file_key_def stamp)
  with files stamp show ?thesis by simp
qed

end
